theory Spec2Isabelle
  imports Main
begin

section \<open>JavaScript strings\<close>

text \<open>
  A JavaScript string is modelled as a \<^typ>\<open>string\<close>, one \<^typ>\<open>char\<close> per code unit.
  Every literal of the selector builder is ASCII.
\<close>

text \<open>\<^verbatim>\<open>s.startsWith(p)\<close>: the pattern \<open>p\<close> is read off the front of \<open>s\<close>.\<close>

fun startsWith :: "string \<Rightarrow> string \<Rightarrow> bool" where
  "startsWith s [] = True"
| "startsWith [] (p # ps) = False"
| "startsWith (c # cs) (p # ps) = (c = p \<and> startsWith cs ps)"

text \<open>\<^verbatim>\<open>s.includes(sub)\<close>: \<open>sub\<close> occurs in \<open>s\<close> at some position.\<close>

fun includes_str :: "string \<Rightarrow> string \<Rightarrow> bool" where
  "includes_str [] sub = startsWith [] sub"
| "includes_str (c # cs) sub = (startsWith (c # cs) sub \<or> includes_str cs sub)"

text \<open>
  \<^verbatim>\<open>new RegExp(types.join('|'), 'g')\<close>: every caller passes literal tags made of letters
  only, so the pattern is the alternation of these literals, and the regular expression
  is modelled as the list of its alternatives. At a position the alternatives are tried
  from left to right and the first one that matches is taken.
\<close>

fun regExp_exec :: "string list \<Rightarrow> string \<Rightarrow> string option" where
  "regExp_exec [] s = None"
| "regExp_exec (p # ps) s = (if startsWith s p then Some p else regExp_exec ps s)"

text \<open>
  \<^verbatim>\<open>s.replace(regExp, '')\<close> with the global flag: the string is scanned from the left; a
  match is deleted and the scan goes on after it; where nothing matches (or the match is
  empty) the character is kept and the scan moves one position on.
\<close>

function replace_empty :: "string list \<Rightarrow> string \<Rightarrow> string" where
  "replace_empty alts [] = []"
| "replace_empty alts (c # cs) =
     (case regExp_exec alts (c # cs) of
        None \<Rightarrow> c # replace_empty alts cs
      | Some p \<Rightarrow>
          if p = [] then c # replace_empty alts cs
          else replace_empty alts (drop (length p) (c # cs)))"
  by pat_completeness auto
termination
  by (relation "measure (\<lambda>(alts, s). length s)") auto

text \<open>
  \<^verbatim>\<open>s.trim()\<close> removes the white space and line terminators at both ends; below code unit
  256 these are tab, line feed, vertical tab, form feed, carriage return, space and the
  no-break space.
\<close>

definition isWhiteSpace :: "char \<Rightarrow> bool" where
  "isWhiteSpace c =
     (c \<in> set [CHR 0x09, CHR 0x0A, CHR 0x0B, CHR 0x0C, CHR 0x0D, CHR 0x20, CHR 0xA0])"

definition trim :: "string \<Rightarrow> string" where
  "trim s = rev (dropWhile isWhiteSpace (rev (dropWhile isWhiteSpace s)))"

text \<open>\<^verbatim>\<open>parts.join(sep)\<close> on an array of strings.\<close>

fun join :: "string \<Rightarrow> string list \<Rightarrow> string" where
  "join sep [] = []"
| "join sep [x] = x"
| "join sep (x # y # ys) = x @ sep @ join sep (y # ys)"

text \<open>
  A template literal \<^verbatim>\<open>${x}\<close> renders a string as itself and \<^verbatim>\<open>undefined\<close> as the
  text \<^verbatim>\<open>undefined\<close>.
\<close>

fun template :: "string option \<Rightarrow> string" where
  "template None = ''undefined''"
| "template (Some s) = s"


section \<open>The class \<^verbatim>\<open>BaseSelector\<close>\<close>

text \<open>
  An object of the class has the fields \<^verbatim>\<open>type\<close> and \<^verbatim>\<open>value\<close>, set by the constructor,
  and the field \<^verbatim>\<open>message\<close>, absent until one of the two throwing helpers assigns it.
  \<^verbatim>\<open>type\<close> is a string, or \<^verbatim>\<open>undefined\<close> (\<open>None\<close>) in the result of \<^verbatim>\<open>combine\<close>.
\<close>

record BaseSelector =
  type_f :: "string option"
  value_f :: string
  message_f :: "string option"

text \<open>
  \<^verbatim>\<open>Error msg\<close> is \<^verbatim>\<open>new Error(msg)\<close>; \<^verbatim>\<open>TypeError\<close> is what the engine raises when a
  property of \<^verbatim>\<open>undefined\<close> is read.
\<close>

datatype error = Error string | TypeError

text \<open>
  A method call is a function of the receiver and the arguments. It yields what the call
  completes with (\<open>Inl\<close> an exception, \<open>Inr\<close> the returned value) and the receiver as the
  call leaves it.
\<close>

type_synonym 'a completion = "(error + 'a) \<times> BaseSelector"

definition constructor :: "string option \<Rightarrow> string \<Rightarrow> BaseSelector" where
  "constructor t v = \<lparr>type_f = t, value_f = v, message_f = None\<rparr>"

text \<open>The two helpers assign the message to the receiver, then throw an error that carries it.\<close>

definition throwOrderError :: "BaseSelector \<Rightarrow> 'a completion" where
  "throwOrderError this =
     (let this1 = this\<lparr>message_f := Some ''Selector parts should be arranged in the following order: element, id, class, attribute, pseudo-class, pseudo-element''\<rparr>
      in (Inl (Error (the (message_f this1))), this1))"

definition throwRepeatError :: "BaseSelector \<Rightarrow> 'a completion" where
  "throwRepeatError this =
     (let this1 = this\<lparr>message_f := Some ''Element, id and pseudo-element should not occur more then one time inside the selector''\<rparr>
      in (Inl (Error (the (message_f this1))), this1))"

text \<open>
  \<^verbatim>\<open>this.type.replace(regExp, '').trim().length === 0\<close>: what is left of the type once every
  listed tag is deleted is white space only.
\<close>

definition isValidType :: "BaseSelector \<Rightarrow> string list \<Rightarrow> bool completion" where
  "isValidType this types =
     (case type_f this of
        None \<Rightarrow> (Inl TypeError, this)
      | Some t \<Rightarrow> (Inr (length (trim (replace_empty types t)) = 0), this))"

text \<open>\<^verbatim>\<open>this.value.toString()\<close>: the value is a string, and its \<^verbatim>\<open>toString\<close> is the string itself.\<close>

definition stringify :: "BaseSelector \<Rightarrow> string completion" where
  "stringify this = (Inr (value_f this), this)"

text \<open>
  The six fragment methods. A call on a receiver whose \<^verbatim>\<open>type\<close> is \<^verbatim>\<open>undefined\<close> stops at
  the first read of a property of \<^verbatim>\<open>this.type\<close> (\<^verbatim>\<open>length\<close>, \<^verbatim>\<open>includes\<close>, or \<^verbatim>\<open>replace\<close>
  inside \<^verbatim>\<open>isValidType\<close>) with a \<^verbatim>\<open>TypeError\<close>; the comparison \<^verbatim>\<open>this.type === 'element'\<close>
  does not read a property and is false there.
\<close>

definition BaseSelector_element :: "BaseSelector \<Rightarrow> string \<Rightarrow> BaseSelector completion" where
  "BaseSelector_element this v =
     (if type_f this = Some ''element'' then throwRepeatError this
      else case type_f this of
        None \<Rightarrow> (Inl TypeError, this)
      | Some t \<Rightarrow>
          if length t > 0 then throwOrderError this
          else (Inr (constructor (Some (template (type_f this) @ '' element''))
                                 (value_f this @ v)), this))"

definition BaseSelector_id :: "BaseSelector \<Rightarrow> string \<Rightarrow> BaseSelector completion" where
  "BaseSelector_id this v =
     (case type_f this of
        None \<Rightarrow> (Inl TypeError, this)
      | Some t \<Rightarrow>
          if includes_str t ''id'' then throwRepeatError this
          else case isValidType this [''element''] of
            (Inl e, this1) \<Rightarrow> (Inl e, this1)
          | (Inr valid, this1) \<Rightarrow>
              if \<not> valid then throwOrderError this1
              else (Inr (constructor (Some (template (type_f this1) @ '' id''))
                                     (value_f this1 @ ''#'' @ v)), this1))"

definition BaseSelector_class :: "BaseSelector \<Rightarrow> string \<Rightarrow> BaseSelector completion" where
  "BaseSelector_class this v =
     (case isValidType this [''element'', ''id'', ''class''] of
        (Inl e, this1) \<Rightarrow> (Inl e, this1)
      | (Inr valid, this1) \<Rightarrow>
          if \<not> valid then throwOrderError this1
          else (Inr (constructor (Some (template (type_f this1) @ '' class''))
                                 (value_f this1 @ ''.'' @ v)), this1))"

definition BaseSelector_attr :: "BaseSelector \<Rightarrow> string \<Rightarrow> BaseSelector completion" where
  "BaseSelector_attr this v =
     (case isValidType this [''element'', ''id'', ''class'', ''attr''] of
        (Inl e, this1) \<Rightarrow> (Inl e, this1)
      | (Inr valid, this1) \<Rightarrow>
          if \<not> valid then throwOrderError this1
          else (Inr (constructor (Some (template (type_f this1) @ '' attr''))
                                 (value_f this1 @ ''['' @ v @ '']'')), this1))"

definition BaseSelector_pseudoClass :: "BaseSelector \<Rightarrow> string \<Rightarrow> BaseSelector completion" where
  "BaseSelector_pseudoClass this v =
     (case isValidType this [''element'', ''id'', ''class'', ''attr'', ''pseudoClass''] of
        (Inl e, this1) \<Rightarrow> (Inl e, this1)
      | (Inr valid, this1) \<Rightarrow>
          if \<not> valid then throwOrderError this1
          else (Inr (constructor (Some (template (type_f this1) @ '' pseudoClass''))
                                 (value_f this1 @ '':'' @ v)), this1))"

definition BaseSelector_pseudoElement :: "BaseSelector \<Rightarrow> string \<Rightarrow> BaseSelector completion" where
  "BaseSelector_pseudoElement this v =
     (case type_f this of
        None \<Rightarrow> (Inl TypeError, this)
      | Some t \<Rightarrow>
          if includes_str t ''pseudoElement'' then throwRepeatError this
          else case isValidType this [''element'', ''id'', ''class'', ''attr'', ''pseudoClass''] of
            (Inl e, this1) \<Rightarrow> (Inl e, this1)
          | (Inr valid, this1) \<Rightarrow>
              if \<not> valid then throwOrderError this1
              else (Inr (constructor (Some (template (type_f this1) @ '' pseudoElement''))
                                     (value_f this1 @ ''::'' @ v)), this1))"


section \<open>The facade \<^verbatim>\<open>cssSelectorBuilder\<close>\<close>

definition cssSelectorBuilder_element :: "string \<Rightarrow> BaseSelector" where
  "cssSelectorBuilder_element v = constructor (Some ''element'') v"

definition cssSelectorBuilder_id :: "string \<Rightarrow> BaseSelector" where
  "cssSelectorBuilder_id v = constructor (Some ''id'') (''#'' @ v)"

definition cssSelectorBuilder_class :: "string \<Rightarrow> BaseSelector" where
  "cssSelectorBuilder_class v = constructor (Some ''class'') (''.'' @ v)"

definition cssSelectorBuilder_attr :: "string \<Rightarrow> BaseSelector" where
  "cssSelectorBuilder_attr v = constructor (Some ''attr'') (''['' @ v @ '']'')"

definition cssSelectorBuilder_pseudoClass :: "string \<Rightarrow> BaseSelector" where
  "cssSelectorBuilder_pseudoClass v = constructor (Some ''pseudoClass'') ('':'' @ v)"

definition cssSelectorBuilder_pseudoElement :: "string \<Rightarrow> BaseSelector" where
  "cssSelectorBuilder_pseudoElement v = constructor (Some ''pseudoElement'') (''::'' @ v)"

definition cssSelectorBuilder_combine ::
  "BaseSelector \<Rightarrow> string \<Rightarrow> BaseSelector \<Rightarrow> BaseSelector" where
  "cssSelectorBuilder_combine selector1 combinator selector2 =
     constructor None (join '' '' [value_f selector1, combinator, value_f selector2])"


section \<open>Chains of fragments\<close>

text \<open>
  The six categories of a fragment, in the fixed order of a compound selector. The facade
  function and the method of a category are the ones a caller selects by name,
  \<^verbatim>\<open>cssSelectorBuilder[c](v)\<close> and \<^verbatim>\<open>selector[c](v)\<close>.
\<close>

datatype category = Element | Id | Class | Attribute | PseudoClass | PseudoElement

fun start :: "category \<Rightarrow> string \<Rightarrow> BaseSelector" where
  "start Element = cssSelectorBuilder_element"
| "start Id = cssSelectorBuilder_id"
| "start Class = cssSelectorBuilder_class"
| "start Attribute = cssSelectorBuilder_attr"
| "start PseudoClass = cssSelectorBuilder_pseudoClass"
| "start PseudoElement = cssSelectorBuilder_pseudoElement"

fun extend :: "category \<Rightarrow> BaseSelector \<Rightarrow> string \<Rightarrow> BaseSelector completion" where
  "extend Element = BaseSelector_element"
| "extend Id = BaseSelector_id"
| "extend Class = BaseSelector_class"
| "extend Attribute = BaseSelector_attr"
| "extend PseudoClass = BaseSelector_pseudoClass"
| "extend PseudoElement = BaseSelector_pseudoElement"

text \<open>
  A chained call \<^verbatim>\<open>e.m(v)\<close>: when \<open>e\<close> threw, the exception goes on; otherwise the method runs
  on the object \<open>e\<close> returned. Nothing else refers to that object, so the state the call
  leaves it in is dropped.
\<close>

definition then_call ::
  "error + BaseSelector \<Rightarrow> (BaseSelector \<Rightarrow> string \<Rightarrow> 'a completion) \<Rightarrow> string \<Rightarrow> error + 'a" where
  "then_call e m v = (case e of Inl x \<Rightarrow> Inl x | Inr this \<Rightarrow> fst (m this v))"

text \<open>\<^verbatim>\<open>e.stringify()\<close> at the end of a chain.\<close>

definition then_stringify :: "error + BaseSelector \<Rightarrow> error + string" where
  "then_stringify e = (case e of Inl x \<Rightarrow> Inl x | Inr this \<Rightarrow> fst (stringify this))"

text \<open>A chain: a facade call, then the fragments \<open>fs\<close> appended from left to right.\<close>

fun extend_all :: "error + BaseSelector \<Rightarrow> (category \<times> string) list \<Rightarrow> error + BaseSelector" where
  "extend_all e [] = e"
| "extend_all e ((c, v) # fs) = extend_all (then_call e (extend c) v) fs"

definition chain :: "category \<times> string \<Rightarrow> (category \<times> string) list \<Rightarrow> error + BaseSelector" where
  "chain f fs = extend_all (Inr (start (fst f) (snd f))) fs"

text \<open>The rendered syntax of one fragment, as the specification lists it.\<close>

fun rendered :: "category \<times> string \<Rightarrow> string" where
  "rendered (Element, v) = v"
| "rendered (Id, v) = ''#'' @ v"
| "rendered (Class, v) = ''.'' @ v"
| "rendered (Attribute, v) = ''['' @ v @ '']''"
| "rendered (PseudoClass, v) = '':'' @ v"
| "rendered (PseudoElement, v) = ''::'' @ v"

text \<open>The position of a category in the fixed order, and the categories that may repeat.\<close>

fun position :: "category \<Rightarrow> nat" where
  "position Element = 0"
| "position Id = 1"
| "position Class = 2"
| "position Attribute = 3"
| "position PseudoClass = 4"
| "position PseudoElement = 5"

fun repeatable :: "category \<Rightarrow> bool" where
  "repeatable Class = True"
| "repeatable Attribute = True"
| "repeatable PseudoClass = True"
| "repeatable c = False"

text \<open>
  A valid ordering: a later fragment is of a later category than every earlier one, or of
  the same category when that category may repeat.
\<close>

definition may_precede :: "category \<Rightarrow> category \<Rightarrow> bool" where
  "may_precede a b = (position a < position b \<or> (a = b \<and> repeatable a))"

definition valid_ordering :: "category list \<Rightarrow> bool" where
  "valid_ordering cs = sorted_wrt may_precede cs"

text \<open>The tag under which the code records a category in the field \<^verbatim>\<open>type\<close>.\<close>

fun tag :: "category \<Rightarrow> string" where
  "tag Element = ''element''"
| "tag Id = ''id''"
| "tag Class = ''class''"
| "tag Attribute = ''attr''"
| "tag PseudoClass = ''pseudoClass''"
| "tag PseudoElement = ''pseudoElement''"


text \<open>
  The field \<^verbatim>\<open>type\<close> of a chain whose fragments had the categories \<open>cs\<close>: the facade
  stores the first tag and every method appends a space and its own tag.
\<close>

definition history :: "category list \<Rightarrow> string" where
  "history cs = join '' '' (map tag cs)"

text \<open>The argument lists with which the fragment methods call \<^verbatim>\<open>isValidType\<close>.\<close>

definition order_checks :: "string list set" where
  "order_checks =
     {[''element''],
      [''element'', ''id'', ''class''],
      [''element'', ''id'', ''class'', ''attr''],
      [''element'', ''id'', ''class'', ''attr'', ''pseudoClass'']}"

text \<open>
  \<^verbatim>\<open>builder.combine(e1, c, e2)\<close> where the arguments are chains: they are evaluated from
  left to right, and the first exception goes on.
\<close>

definition then_combine ::
  "error + BaseSelector \<Rightarrow> string \<Rightarrow> error + BaseSelector \<Rightarrow> error + BaseSelector" where
  "then_combine e1 c e2 =
     (case e1 of
        Inl x \<Rightarrow> Inl x
      | Inr selector1 \<Rightarrow>
          (case e2 of
             Inl x \<Rightarrow> Inl x
           | Inr selector2 \<Rightarrow> Inr (cssSelectorBuilder_combine selector1 c selector2)))"

text \<open>\<open>n\<close> calls of \<^verbatim>\<open>stringify\<close> in a row on one object: what each returned, and the object
  after the last.\<close>

fun stringify_times :: "nat \<Rightarrow> BaseSelector \<Rightarrow> (error + string) list \<times> BaseSelector" where
  "stringify_times 0 this = ([], this)"
| "stringify_times (Suc n) this =
     (case stringify this of
        (r, this1) \<Rightarrow> (case stringify_times n this1 of (rs, this2) \<Rightarrow> (r # rs, this2)))"


section \<open>Objects in a store\<close>

text \<open>
  Selectors are objects, and a caller holds references to them. The store lists the
  objects allocated so far; a reference is an index into it, and \<^verbatim>\<open>new\<close> appends. A method
  call through a reference \<open>r\<close> of the store runs the method on the object at \<open>r\<close>, writes
  the receiver back, and on a normal return allocates the returned object.
\<close>

type_synonym store = "BaseSelector list"

definition store_call ::
  "(BaseSelector \<Rightarrow> string \<Rightarrow> BaseSelector completion) \<Rightarrow> store \<Rightarrow> nat \<Rightarrow> string
     \<Rightarrow> (error + nat) \<times> store" where
  "store_call m h r v =
     (case m (h ! r) v of
        (Inl e, this1) \<Rightarrow> (Inl e, h[r := this1])
      | (Inr obj, this1) \<Rightarrow> (Inr (length h), h[r := this1] @ [obj]))"

definition store_stringify :: "store \<Rightarrow> nat \<Rightarrow> (error + string) \<times> store" where
  "store_stringify h r = (case stringify (h ! r) of (res, this1) \<Rightarrow> (res, h[r := this1]))"

definition store_combine :: "store \<Rightarrow> nat \<Rightarrow> string \<Rightarrow> nat \<Rightarrow> nat \<times> store" where
  "store_combine h r1 c r2 = (length h, h @ [cssSelectorBuilder_combine (h ! r1) c (h ! r2)])"


section \<open>White space, tags and the order check\<close>

lemma dropWhile_all_iff: "(\<forall>x\<in>set (dropWhile P xs). P x) \<longleftrightarrow> (\<forall>x\<in>set xs. P x)"
  by (induction xs) auto

lemma trim_empty_iff: "trim s = [] \<longleftrightarrow> (\<forall>c\<in>set s. isWhiteSpace c)"
  by (simp add: trim_def dropWhile_eq_Nil_conv dropWhile_all_iff)

lemma replace_empty_space:
  "alts \<in> order_checks \<Longrightarrow>
   replace_empty alts (CHR '' '' # rest) = CHR '' '' # replace_empty alts rest"
  by (auto simp: order_checks_def)

lemma replace_empty_tag:
  "alts \<in> order_checks \<Longrightarrow>
   replace_empty alts (tag c @ rest) =
     (if tag c \<in> set alts then replace_empty alts rest else tag c @ replace_empty alts rest)"
  by (cases c) (auto simp: order_checks_def)

lemma tag_not_blank: "\<not> (\<forall>x\<in>set (tag c @ rest). isWhiteSpace x)"
  by (cases c) (simp_all add: isWhiteSpace_def)

lemma history_Cons2: "history (c # d # cs) = tag c @ CHR '' '' # history (d # cs)"
  by (simp add: history_def)

lemma replace_empty_history:
  "alts \<in> order_checks \<Longrightarrow>
   (\<forall>x\<in>set (replace_empty alts (history cs)). isWhiteSpace x) \<longleftrightarrow>
   (\<forall>c\<in>set cs. tag c \<in> set alts)"
proof (induction cs rule: induct_list012)
  case 1
  then show ?case by (simp add: history_def)
next
  case (2 c)
  have "replace_empty alts (tag c @ []) =
     (if tag c \<in> set alts then replace_empty alts [] else tag c @ replace_empty alts [])"
    using 2 by (rule replace_empty_tag)
  then show ?case
    using tag_not_blank [of c "[]"] by (simp add: history_def)
next
  case (3 c d cs)
  then show ?case
    using tag_not_blank [of c]
    by (simp add: history_Cons2 replace_empty_tag replace_empty_space isWhiteSpace_def
          del: replace_empty.simps)
qed

lemma isValidType_history:
  "type_f this = Some (history cs) \<Longrightarrow> alts \<in> order_checks \<Longrightarrow>
   isValidType this alts = (Inr (\<forall>c\<in>set cs. tag c \<in> set alts), this)"
  by (simp add: isValidType_def trim_empty_iff replace_empty_history)

lemma includes_id_tag:
  "includes_str (tag c @ CHR '' '' # rest) ''id'' = (c = Id \<or> includes_str rest ''id'')"
  by (cases c) simp_all

lemma includes_id_history: "includes_str (history cs) ''id'' \<longleftrightarrow> Id \<in> set cs"
proof (induction cs rule: induct_list012)
  case 1
  then show ?case by (simp add: history_def)
next
  case (2 c)
  then show ?case by (cases c) (simp_all add: history_def)
next
  case (3 c d cs)
  then show ?case by (auto simp add: history_Cons2 includes_id_tag)
qed

lemma includes_pseudoElement_tag:
  "includes_str (tag c @ CHR '' '' # rest) ''pseudoElement'' =
     (c = PseudoElement \<or> includes_str rest ''pseudoElement'')"
  by (cases c) simp_all

lemma includes_pseudoElement_history:
  "includes_str (history cs) ''pseudoElement'' \<longleftrightarrow> PseudoElement \<in> set cs"
proof (induction cs rule: induct_list012)
  case 1
  then show ?case by (simp add: history_def)
next
  case (2 c)
  then show ?case by (cases c) (simp_all add: history_def)
next
  case (3 c d cs)
  then show ?case by (auto simp add: history_Cons2 includes_pseudoElement_tag)
qed

lemma history_snoc: "cs \<noteq> [] \<Longrightarrow> history (cs @ [c]) = history cs @ CHR '' '' # tag c"
  by (induction cs rule: induct_list012) (simp_all add: history_def)

lemma history_element: "history cs = ''element'' \<longleftrightarrow> cs = [Element]"
proof (cases cs)
  case Nil
  then show ?thesis by (simp add: history_def)
next
  case (Cons c ds)
  show ?thesis
  proof (cases ds)
    case Nil
    with Cons show ?thesis by (cases c) (simp_all add: history_def)
  next
    case (Cons d es)
    with \<open>cs = c # ds\<close> show ?thesis by (cases c) (simp_all add: history_def)
  qed
qed

lemma history_nonempty: "cs \<noteq> [] \<Longrightarrow> history cs \<noteq> []"
proof (induction cs rule: induct_list012)
  case (2 c)
  then show ?case by (cases c) (simp_all add: history_def)
next
  case (3 c d cs)
  then show ?case by (cases c) (simp_all add: history_def)
qed simp


section \<open>The fragment methods on the object of a chain\<close>

lemma tag_in_check1: "tag d \<in> set [''element''] \<longleftrightarrow> position d < 1"
  by (cases d) simp_all
lemma tag_in_check2: "tag d \<in> set [''element'', ''id'', ''class''] \<longleftrightarrow> position d \<le> 2"
  by (cases d) simp_all
lemma tag_in_check3: "tag d \<in> set [''element'', ''id'', ''class'', ''attr''] \<longleftrightarrow> position d \<le> 3"
  by (cases d) simp_all
lemma tag_in_check4:
  "tag d \<in> set [''element'', ''id'', ''class'', ''attr'', ''pseudoClass''] \<longleftrightarrow> position d \<le> 4"
  by (cases d) simp_all

lemma position_inj: "position c = position d \<longleftrightarrow> c = d"
  by (cases c; cases d) simp_all

lemma position_le5: "position c \<le> 5"
  by (cases c) simp_all

lemma ball_le_iff: "(\<forall>c\<in>A. f c \<le> (n::nat)) \<longleftrightarrow> \<not> (\<exists>d\<in>A. n < f d)"
  by (auto simp: not_less)

lemma isValidType_check1:
  assumes "type_f this = Some (history cs)" and "Id \<notin> set cs"
  shows "isValidType this [''element''] =
           (Inr (\<not> (\<exists>d\<in>set cs. position Id < position d)), this)"
proof -
  have a: "[''element''] \<in> order_checks" by (simp add: order_checks_def)
  have "position d \<noteq> 1" if "d \<in> set cs" for d
    using that assms(2) position_inj [of d Id] by auto
  then have "(\<forall>c\<in>set cs. position c < 1) \<longleftrightarrow> \<not> (\<exists>d\<in>set cs. position Id < position d)"
    unfolding position.simps by (meson linorder_neqE_nat less_asym)
  then show ?thesis
    unfolding isValidType_history [OF assms(1) a] tag_in_check1 by (rule arg_cong2 [OF _ refl, of _ _ "\<lambda>b t. (Inr b, t)"])
qed

lemma isValidType_check2:
  assumes "type_f this = Some (history cs)"
  shows "isValidType this [''element'', ''id'', ''class''] =
           (Inr (\<not> (\<exists>d\<in>set cs. position Class < position d)), this)"
proof -
  have a: "[''element'', ''id'', ''class''] \<in> order_checks" by (simp add: order_checks_def)
  show ?thesis
    unfolding isValidType_history [OF assms a] tag_in_check2 ball_le_iff position.simps ..
qed

lemma isValidType_check3:
  assumes "type_f this = Some (history cs)"
  shows "isValidType this [''element'', ''id'', ''class'', ''attr''] =
           (Inr (\<not> (\<exists>d\<in>set cs. position Attribute < position d)), this)"
proof -
  have a: "[''element'', ''id'', ''class'', ''attr''] \<in> order_checks"
    by (simp add: order_checks_def)
  show ?thesis
    unfolding isValidType_history [OF assms a] tag_in_check3 ball_le_iff position.simps ..
qed

lemma isValidType_check4:
  assumes "type_f this = Some (history cs)"
  shows "isValidType this [''element'', ''id'', ''class'', ''attr'', ''pseudoClass''] =
           (Inr (\<not> (\<exists>d\<in>set cs. position PseudoClass < position d)), this)"
proof -
  have a: "[''element'', ''id'', ''class'', ''attr'', ''pseudoClass''] \<in> order_checks"
    by (simp add: order_checks_def)
  show ?thesis
    unfolding isValidType_history [OF assms a] tag_in_check4 ball_le_iff position.simps ..
qed

lemma extend_Element_history:
  assumes "type_f this = Some (history cs)" and "cs \<noteq> []"
  shows "extend Element this v =
    (if cs = [Element] then throwRepeatError this else throwOrderError this)"
  using assms history_nonempty [of cs]
  by (simp add: BaseSelector_element_def history_element)

lemma extend_Id_history:
  assumes "type_f this = Some (history cs)" and "cs \<noteq> []"
  shows "extend Id this v =
    (if Id \<in> set cs then throwRepeatError this
     else if \<exists>d\<in>set cs. position Id < position d then throwOrderError this
     else (Inr (constructor (Some (history (cs @ [Id]))) (value_f this @ rendered (Id, v))), this))"
  using assms
  by (simp add: BaseSelector_id_def includes_id_history isValidType_check1 history_snoc)

lemma extend_Class_history:
  assumes "type_f this = Some (history cs)" and "cs \<noteq> []"
  shows "extend Class this v =
    (if \<exists>d\<in>set cs. position Class < position d then throwOrderError this
     else (Inr (constructor (Some (history (cs @ [Class]))) (value_f this @ rendered (Class, v))), this))"
  using assms
  by (simp add: BaseSelector_class_def isValidType_check2 history_snoc)

lemma extend_Attribute_history:
  assumes "type_f this = Some (history cs)" and "cs \<noteq> []"
  shows "extend Attribute this v =
    (if \<exists>d\<in>set cs. position Attribute < position d then throwOrderError this
     else (Inr (constructor (Some (history (cs @ [Attribute])))
                 (value_f this @ rendered (Attribute, v))), this))"
  using assms
  by (simp add: BaseSelector_attr_def isValidType_check3 history_snoc)

lemma extend_PseudoClass_history:
  assumes "type_f this = Some (history cs)" and "cs \<noteq> []"
  shows "extend PseudoClass this v =
    (if \<exists>d\<in>set cs. position PseudoClass < position d then throwOrderError this
     else (Inr (constructor (Some (history (cs @ [PseudoClass])))
                 (value_f this @ rendered (PseudoClass, v))), this))"
  using assms
  by (simp add: BaseSelector_pseudoClass_def isValidType_check4 history_snoc)

lemma extend_PseudoElement_history:
  assumes "type_f this = Some (history cs)" and "cs \<noteq> []"
  shows "extend PseudoElement this v =
    (if PseudoElement \<in> set cs then throwRepeatError this
     else (Inr (constructor (Some (history (cs @ [PseudoElement])))
                 (value_f this @ rendered (PseudoElement, v))), this))"
proof -
  have "position d \<le> 4" if "d \<noteq> PseudoElement" for d
    using that by (cases d) simp_all
  then have "PseudoElement \<notin> set cs \<Longrightarrow> \<not> (\<exists>d\<in>set cs. 4 < position d)"
    by (metis not_less)
  then show ?thesis
    using assms
    by (simp add: BaseSelector_pseudoElement_def includes_pseudoElement_history
          isValidType_check4 history_snoc)
qed


section \<open>Chains\<close>

lemma extend_all_Inl: "extend_all (Inl e) fs = Inl e"
  by (induction fs) (auto simp: then_call_def)

lemma start_history:
  "type_f (start c v) = Some (history [c])" "value_f (start c v) = rendered (c, v)"
  by (cases c; simp add: history_def constructor_def cssSelectorBuilder_element_def
        cssSelectorBuilder_id_def cssSelectorBuilder_class_def cssSelectorBuilder_attr_def
        cssSelectorBuilder_pseudoClass_def cssSelectorBuilder_pseudoElement_def)+

lemma extend_returns:
  assumes "type_f this = Some t" and "extend c this v = (Inr new, this')"
  shows "new = constructor (Some (t @ CHR '' '' # tag c)) (value_f this @ rendered (c, v))"
    and "this' = this"
  using assms
  by (cases c;
      auto simp: BaseSelector_element_def BaseSelector_id_def BaseSelector_class_def
        BaseSelector_attr_def BaseSelector_pseudoClass_def BaseSelector_pseudoElement_def
        isValidType_def throwOrderError_def throwRepeatError_def
        split: if_splits)+

lemma extend_all_history:
  "extend_all (Inr this) fs = Inr s \<Longrightarrow> type_f this = Some (history cs) \<Longrightarrow> cs \<noteq> [] \<Longrightarrow>
   type_f s = Some (history (cs @ map fst fs)) \<and>
   value_f s = value_f this @ concat (map rendered fs)"
proof (induction fs arbitrary: this cs)
  case Nil
  then show ?case by simp
next
  case (Cons f fs)
  obtain c v where f: "f = (c, v)" by (cases f)
  obtain res this' where r: "extend c this v = (res, this')" by (cases "extend c this v")
  show ?case
  proof (cases res)
    case (Inl e)
    with Cons.prems(1) f r show ?thesis
      by (simp add: then_call_def extend_all_Inl)
  next
    case (Inr new)
    with r Cons.prems(2) have new:
      "new = constructor (Some (history cs @ CHR '' '' # tag c)) (value_f this @ rendered (c, v))"
      by (simp add: extend_returns(1))
    with Cons.prems(3) have t: "type_f new = Some (history (cs @ [c]))"
      by (simp add: history_snoc constructor_def)
    from Cons.prems(1) f r Inr have "extend_all (Inr new) fs = Inr s"
      by (simp add: then_call_def)
    from Cons.IH [OF this t] new f show ?thesis
      by (simp add: constructor_def)
  qed
qed

lemma chain_history:
  assumes "chain f fs = Inr s"
  shows "type_f s = Some (history (map fst (f # fs)))"
    and "value_f s = concat (map rendered (f # fs))"
  using extend_all_history [of "start (fst f) (snd f)" fs s "[fst f]"] assms
  by (simp_all add: chain_def start_history)

lemma valid_ordering_snoc:
  assumes "valid_ordering (cs @ [c])" and "cs \<noteq> []"
  shows "c \<noteq> Element" and "c \<in> set cs \<Longrightarrow> repeatable c"
    and "\<not> (\<exists>d\<in>set cs. position c < position d)"
proof -
  from assms(1) have all: "\<forall>d\<in>set cs. may_precede d c"
    by (simp add: valid_ordering_def sorted_wrt_append)
  from assms(2) obtain d where "d \<in> set cs" by (cases cs) auto
  with all have "may_precede d c" by blast
  then show "c \<noteq> Element" by (auto simp: may_precede_def)
  show "c \<in> set cs \<Longrightarrow> repeatable c" using all by (auto simp: may_precede_def)
  show "\<not> (\<exists>d\<in>set cs. position c < position d)"
    using all by (auto simp: may_precede_def)
qed

lemma extend_valid:
  assumes "type_f this = Some (history cs)" and "cs \<noteq> []" and "valid_ordering (cs @ [c])"
  shows "extend c this v =
     (Inr (constructor (Some (history (cs @ [c]))) (value_f this @ rendered (c, v))), this)"
proof -
  note v = valid_ordering_snoc [OF assms(3,2)]
  show ?thesis
  proof (cases c)
    case Element
    with v(1) show ?thesis by simp
  next
    case Id
    with v(2,3) show ?thesis
      by (auto simp only: extend_Id_history [OF assms(1,2)] repeatable.simps split: if_splits)
  next
    case Class
    with v(3) show ?thesis by (simp only: extend_Class_history [OF assms(1,2)] if_False)
  next
    case Attribute
    with v(3) show ?thesis by (simp only: extend_Attribute_history [OF assms(1,2)] if_False)
  next
    case PseudoClass
    with v(3) show ?thesis by (simp only: extend_PseudoClass_history [OF assms(1,2)] if_False)
  next
    case PseudoElement
    with v(2) show ?thesis
      by (auto simp only: extend_PseudoElement_history [OF assms(1,2)] repeatable.simps split: if_splits)
  qed
qed

lemma extend_all_valid:
  "type_f this = Some (history cs) \<Longrightarrow> cs \<noteq> [] \<Longrightarrow> valid_ordering (cs @ map fst fs) \<Longrightarrow>
   \<exists>s. extend_all (Inr this) fs = Inr s"
proof (induction fs arbitrary: this cs)
  case Nil
  then show ?case by simp
next
  case (Cons f fs)
  obtain c v where f: "f = (c, v)" by (cases f)
  let ?new = "constructor (Some (history (cs @ [c]))) (value_f this @ rendered (c, v))"
  from Cons.prems(3) f have "valid_ordering ((cs @ [c]) @ map fst fs)" by simp
  moreover from this have "valid_ordering (cs @ [c])"
    unfolding valid_ordering_def sorted_wrt_append by blast
  ultimately show ?case
    using Cons.IH [of ?new "cs @ [c]"] extend_valid [OF Cons.prems(1,2), of c v] f
    by (simp add: then_call_def constructor_def)
qed

lemma chain_valid:
  assumes "valid_ordering (map fst (f # fs))"
  shows "\<exists>s. chain f fs = Inr s"
  using extend_all_valid [of "start (fst f) (snd f)" "[fst f]" fs] assms
  by (simp add: chain_def start_history)


lemma extend_all_no_element:
  "extend_all (Inr this) fs = Inr s \<Longrightarrow> type_f this = Some (history cs) \<Longrightarrow> cs \<noteq> [] \<Longrightarrow>
   Element \<notin> set (map fst fs)"
proof (induction fs arbitrary: this cs)
  case Nil
  then show ?case by simp
next
  case (Cons f fs)
  obtain c v where f: "f = (c, v)" by (cases f)
  obtain res this' where r: "extend c this v = (res, this')" by (cases "extend c this v")
  show ?case
  proof (cases res)
    case (Inl e)
    with Cons.prems(1) f r show ?thesis
      by (simp add: then_call_def extend_all_Inl)
  next
    case (Inr new)
    have c: "c \<noteq> Element"
      using r Inr extend_Element_history [OF Cons.prems(2,3), of v]
      by (auto simp: throwRepeatError_def throwOrderError_def Let_def split: if_splits)
    from r Inr Cons.prems(2) have
      "new = constructor (Some (history cs @ CHR '' '' # tag c)) (value_f this @ rendered (c, v))"
      by (simp add: extend_returns(1))
    with Cons.prems(3) have t: "type_f new = Some (history (cs @ [c]))"
      by (simp add: history_snoc constructor_def)
    from Cons.prems(1) f r Inr have "extend_all (Inr new) fs = Inr s"
      by (simp add: then_call_def)
    from Cons.IH [OF this t] c f show ?thesis by simp
  qed
qed

lemma chain_no_element:
  assumes "chain f fs = Inr s"
  shows "Element \<notin> set (map fst fs)"
  using extend_all_no_element [of "start (fst f) (snd f)" fs s "[fst f]"] assms
  by (simp add: chain_def start_history)

lemma position_Element: "position d = 0 \<longleftrightarrow> d = Element"
  by (cases d) simp_all


section \<open>The receiver after a call\<close>

lemma extend_receiver:
  "extend c this v = (res, this') \<Longrightarrow>
   (case res of
      Inr new \<Rightarrow> this' = this
    | Inl (Error m) \<Rightarrow> this' = this\<lparr>message_f := Some m\<rparr>
    | Inl TypeError \<Rightarrow> this' = this)"
  by (cases c;
      auto simp: BaseSelector_element_def BaseSelector_id_def BaseSelector_class_def
        BaseSelector_attr_def BaseSelector_pseudoClass_def BaseSelector_pseudoElement_def
        isValidType_def throwOrderError_def throwRepeatError_def
        split: if_splits option.splits)+

lemma extend_message:
  "fst (extend c (this\<lparr>message_f := m\<rparr>) v) = fst (extend c this v)"
  by (cases c;
      simp add: BaseSelector_element_def BaseSelector_id_def BaseSelector_class_def
        BaseSelector_attr_def BaseSelector_pseudoClass_def BaseSelector_pseudoElement_def
        isValidType_def throwOrderError_def throwRepeatError_def
        split: option.splits)+

lemma extend_undefined:
  "type_f this = None \<Longrightarrow> extend c this v = (Inl TypeError, this)"
  by (cases c;
      simp add: BaseSelector_element_def BaseSelector_id_def BaseSelector_class_def
        BaseSelector_attr_def BaseSelector_pseudoClass_def BaseSelector_pseudoElement_def
        isValidType_def)+


section \<open>The claims of the specification\<close>

lemmas facade_defs =
  cssSelectorBuilder_element_def cssSelectorBuilder_id_def cssSelectorBuilder_class_def
  cssSelectorBuilder_attr_def cssSelectorBuilder_pseudoClass_def
  cssSelectorBuilder_pseudoElement_def cssSelectorBuilder_combine_def constructor_def

lemmas method_defs =
  BaseSelector_element_def BaseSelector_id_def BaseSelector_class_def BaseSelector_attr_def
  BaseSelector_pseudoClass_def BaseSelector_pseudoElement_def isValidType_def
  throwOrderError_def throwRepeatError_def trim_def isWhiteSpace_def

lemmas call_defs = chain_def then_call_def then_stringify_def stringify_def

text \<open>
  Claim C1. A chain whose categories are in a valid ordering (element, id, class,
  attribute, pseudo-class, pseudo-element, the middle three possibly repeated) succeeds at
  every extension call, and \<^verbatim>\<open>stringify\<close> returns the rendered fragments concatenated in
  append order with nothing between them. In particular
  \<^verbatim>\<open>element('a').attr('href$=".png"').pseudoClass('focus').stringify()\<close> is
  \<^verbatim>\<open>a[href$=".png"]:focus\<close>.
\<close>

theorem valid_chain_stringify:
  "(\<forall>f fs. valid_ordering (map fst (f # fs)) \<longrightarrow>
      (\<forall>n. \<exists>s. chain f (take n fs) = Inr s) \<and>
      then_stringify (chain f fs) = Inr (concat (map rendered (f # fs)))) \<and>
   then_stringify
     (then_call (then_call (Inr (cssSelectorBuilder_element ''a''))
        BaseSelector_attr ''href$=\".png\"'') BaseSelector_pseudoClass ''focus'') =
     Inr ''a[href$=\".png\"]:focus''"
proof (intro conjI allI impI)
  fix f :: "category \<times> string" and fs n
  assume v: "valid_ordering (map fst (f # fs))"
  have "map fst (f # fs) = map fst (f # take n fs) @ map fst (drop n fs)"
    by (simp flip: map_append)
  with v have "valid_ordering (map fst (f # take n fs))"
    unfolding valid_ordering_def by (metis sorted_wrt_append)
  then show "\<exists>s. chain f (take n fs) = Inr s"
    by (rule chain_valid)
next
  fix f :: "category \<times> string" and fs
  assume "valid_ordering (map fst (f # fs))"
  then obtain s where s: "chain f fs = Inr s"
    using chain_valid by blast
  then show "then_stringify (chain f fs) = Inr (concat (map rendered (f # fs)))"
    using chain_history(2) [OF s] by (simp add: then_stringify_def stringify_def)
next
  show "then_stringify
     (then_call (then_call (Inr (cssSelectorBuilder_element ''a''))
        BaseSelector_attr ''href$=\".png\"'') BaseSelector_pseudoClass ''focus'') =
     Inr ''a[href$=\".png\"]:focus''"
    by (simp add: call_defs facade_defs method_defs)
qed

text \<open>
  Claim C1, at the chain of the example: its ordering is valid, its first extension
  succeeds, and the general statement gives the string.
\<close>

theorem valid_chain_stringify_witness:
  "valid_ordering (map fst [(Element, ''a''), (Attribute, ''href$=\".png\"''), (PseudoClass, ''focus'')]) \<and>
   (\<exists>s. chain (Element, ''a'') [(Attribute, ''href$=\".png\"'')] = Inr s) \<and>
   then_stringify (chain (Element, ''a'') [(Attribute, ''href$=\".png\"''), (PseudoClass, ''focus'')]) =
     Inr ''a[href$=\".png\"]:focus''"
proof -
  have v: "valid_ordering
    (map fst ((Element, ''a'') # [(Attribute, ''href$=\".png\"''), (PseudoClass, ''focus'')]))"
    by (simp add: valid_ordering_def may_precede_def)
  from valid_chain_stringify [THEN conjunct1, rule_format, OF v]
  have a: "\<And>n. \<exists>s. chain (Element, ''a'') (take n [(Attribute, ''href$=\".png\"''), (PseudoClass, ''focus'')]) = Inr s"
   and b: "then_stringify (chain (Element, ''a'') [(Attribute, ''href$=\".png\"''), (PseudoClass, ''focus'')]) =
     Inr (concat (map rendered [(Element, ''a''), (Attribute, ''href$=\".png\"''), (PseudoClass, ''focus'')]))"
    by blast+
  from v a [of 1] b show ?thesis by simp
qed

text \<open>
  Claim C2 fails as stated: in \<^verbatim>\<open>element('a').id('b').element('c')\<close> the category element
  is in the history, yet the call raises the order error, not the repeated-category error.
  The method \<^verbatim>\<open>element\<close> tests \<^verbatim>\<open>this.type === 'element'\<close>, which holds only for the history
  that is exactly one element.
\<close>

theorem repeated_element_counterexample:
  "Element \<in> set (map fst [(Element, ''a''), (Id, ''b'')]) \<and>
   then_call (chain (Element, ''a'') [(Id, ''b'')]) BaseSelector_element ''c'' =
     Inl (Error ''Selector parts should be arranged in the following order: element, id, class, attribute, pseudo-class, pseudo-element'') \<and>
   then_call (chain (Element, ''a'') [(Id, ''b'')]) BaseSelector_element ''c'' \<noteq>
     Inl (Error ''Element, id and pseudo-element should not occur more then one time inside the selector'')"
  by (simp add: call_defs facade_defs method_defs)

text \<open>
  Claim C2, amended. Appending a pseudo-element when one is anywhere in the history raises
  the repeated-category error with its exact message, whatever the order check would say.
  Appending an element raises that error when the history is exactly one element; when the
  history holds an element and more, it raises the order error.
\<close>

theorem repeated_element_pseudoElement:
  assumes "chain f fs = Inr s"
  shows "(PseudoElement \<in> set (map fst (f # fs)) \<longrightarrow>
            fst (extend PseudoElement s v) =
              Inl (Error ''Element, id and pseudo-element should not occur more then one time inside the selector'')) \<and>
         (map fst (f # fs) = [Element] \<longrightarrow>
            fst (extend Element s v) =
              Inl (Error ''Element, id and pseudo-element should not occur more then one time inside the selector'')) \<and>
         (Element \<in> set (map fst (f # fs)) \<and> map fst (f # fs) \<noteq> [Element] \<longrightarrow>
            fst (extend Element s v) =
              Inl (Error ''Selector parts should be arranged in the following order: element, id, class, attribute, pseudo-class, pseudo-element''))"
proof -
  note t = chain_history(1) [OF assms]
  have ne: "map fst (f # fs) \<noteq> []" by simp
  show ?thesis
    unfolding extend_PseudoElement_history [OF t ne] extend_Element_history [OF t ne]
    by (simp add: throwRepeatError_def throwOrderError_def)
qed

text \<open>
  Claim C2, amended, at three chains: \<^verbatim>\<open>class('a').pseudoElement('b')\<close>, \<^verbatim>\<open>element('a')\<close> and
  \<^verbatim>\<open>element('a').class('b')\<close>.
\<close>

theorem repeated_element_pseudoElement_witness:
  "fst (extend PseudoElement \<lparr>type_f = Some ''class pseudoElement'', value_f = ''.a::b'', message_f = None\<rparr> ''c'') =
     Inl (Error ''Element, id and pseudo-element should not occur more then one time inside the selector'') \<and>
   fst (extend Element \<lparr>type_f = Some ''element'', value_f = ''a'', message_f = None\<rparr> ''c'') =
     Inl (Error ''Element, id and pseudo-element should not occur more then one time inside the selector'') \<and>
   fst (extend Element \<lparr>type_f = Some ''element class'', value_f = ''a.b'', message_f = None\<rparr> ''c'') =
     Inl (Error ''Selector parts should be arranged in the following order: element, id, class, attribute, pseudo-class, pseudo-element'')"
proof -
  have 1: "chain (Class, ''a'') [(PseudoElement, ''b'')] =
      Inr \<lparr>type_f = Some ''class pseudoElement'', value_f = ''.a::b'', message_f = None\<rparr>"
    by (simp add: call_defs facade_defs method_defs)
  have 2: "chain (Element, ''a'') [] =
      Inr \<lparr>type_f = Some ''element'', value_f = ''a'', message_f = None\<rparr>"
    by (simp add: call_defs facade_defs method_defs)
  have 3: "chain (Element, ''a'') [(Class, ''b'')] =
      Inr \<lparr>type_f = Some ''element class'', value_f = ''a.b'', message_f = None\<rparr>"
    by (simp add: call_defs facade_defs method_defs)
  show ?thesis
    using repeated_element_pseudoElement [OF 1, of "''c''"]
      repeated_element_pseudoElement [OF 2, of "''c''"]
      repeated_element_pseudoElement [OF 3, of "''c''"]
    by simp
qed

text \<open>
  Claim C3 fails as stated: in \<^verbatim>\<open>id('a').class('b').id('c')\<close> the category id is strictly
  earlier than the recorded class, yet the call raises the repeated-category error, because
  \<^verbatim>\<open>id\<close> looks for its own tag in the history before it checks the order.
\<close>

theorem earlier_category_counterexample:
  "position Id < position Class \<and>
   Class \<in> set (map fst [(Id, ''a''), (Class, ''b'')]) \<and>
   then_call (chain (Id, ''a'') [(Class, ''b'')]) BaseSelector_id ''c'' =
     Inl (Error ''Element, id and pseudo-element should not occur more then one time inside the selector'') \<and>
   then_call (chain (Id, ''a'') [(Class, ''b'')]) BaseSelector_id ''c'' \<noteq>
     Inl (Error ''Selector parts should be arranged in the following order: element, id, class, attribute, pseudo-class, pseudo-element'')"
  by (simp add: call_defs facade_defs method_defs)

text \<open>
  Claim C3, amended. Appending a fragment whose category is strictly earlier in the fixed
  order than some category of the history raises the order error with its exact message,
  unless the category is id and the history already holds an id: then the
  repeated-category error is raised.
\<close>

theorem earlier_category_order_error:
  assumes "chain f fs = Inr s"
    and "\<exists>d\<in>set (map fst (f # fs)). position c < position d"
  shows "fst (extend c s v) =
    (if c = Id \<and> Id \<in> set (map fst (f # fs))
     then Inl (Error ''Element, id and pseudo-element should not occur more then one time inside the selector'')
     else Inl (Error ''Selector parts should be arranged in the following order: element, id, class, attribute, pseudo-class, pseudo-element''))"
proof -
  note t = chain_history(1) [OF assms(1)]
  have ne: "map fst (f # fs) \<noteq> []" by simp
  show ?thesis
  proof (cases c)
    case Element
    from assms(2) have "map fst (f # fs) \<noteq> [Element]"
      unfolding Element by (metis empty_iff empty_set less_irrefl set_ConsD)
    then have "extend Element s v = throwOrderError s"
      unfolding extend_Element_history [OF t ne] by (rule if_not_P)
    then show ?thesis
      unfolding Element by (simp add: throwOrderError_def)
  next
    case Id
    with assms(2) show ?thesis
      unfolding Id extend_Id_history [OF t ne]
      by (simp add: throwOrderError_def throwRepeatError_def)
  next
    case Class
    with assms(2) show ?thesis
      unfolding Class extend_Class_history [OF t ne]
      by (simp add: throwOrderError_def)
  next
    case Attribute
    with assms(2) show ?thesis
      unfolding Attribute extend_Attribute_history [OF t ne]
      by (simp add: throwOrderError_def)
  next
    case PseudoClass
    with assms(2) show ?thesis
      unfolding PseudoClass extend_PseudoClass_history [OF t ne]
      by (simp add: throwOrderError_def)
  next
    case PseudoElement
    with assms(2) position_le5 show ?thesis
      by (metis not_less position.simps(6))
  qed
qed

text \<open>
  Claim C3, amended, at \<^verbatim>\<open>class('a').id('b')\<close>, the example of the claim, and at
  \<^verbatim>\<open>id('a').class('b').id('c')\<close>.
\<close>

theorem earlier_category_order_error_witness:
  "position Id < position Class \<and>
   fst (extend Id \<lparr>type_f = Some ''class'', value_f = ''.a'', message_f = None\<rparr> ''b'') =
     Inl (Error ''Selector parts should be arranged in the following order: element, id, class, attribute, pseudo-class, pseudo-element'') \<and>
   fst (extend Id \<lparr>type_f = Some ''id class'', value_f = ''#a.b'', message_f = None\<rparr> ''c'') =
     Inl (Error ''Element, id and pseudo-element should not occur more then one time inside the selector'')"
proof -
  have 1: "chain (Class, ''a'') [] =
      Inr \<lparr>type_f = Some ''class'', value_f = ''.a'', message_f = None\<rparr>"
    by (simp add: call_defs facade_defs method_defs)
  have 2: "chain (Id, ''a'') [(Class, ''b'')] =
      Inr \<lparr>type_f = Some ''id class'', value_f = ''#a.b'', message_f = None\<rparr>"
    by (simp add: call_defs facade_defs method_defs)
  have h1: "\<exists>d\<in>set (map fst ((Class, ''a'') # [])). position Id < position d" by simp
  have h2: "\<exists>d\<in>set (map fst ((Id, ''a'') # [(Class, ''b'')])). position Id < position d" by simp
  show ?thesis
    using earlier_category_order_error [OF 1 h1, of "''b''"]
      earlier_category_order_error [OF 2 h2, of "''c''"]
    by simp
qed

text \<open>
  Claim C9. Appending an id to a chain whose history already holds an id raises the
  repeated-category error with its exact message: the code allows at most one id, too.
\<close>

theorem repeated_id:
  assumes "chain f fs = Inr s" and "Id \<in> set (map fst (f # fs))"
  shows "fst (extend Id s v) =
    Inl (Error ''Element, id and pseudo-element should not occur more then one time inside the selector'')"
proof -
  note t = chain_history(1) [OF assms(1)]
  have ne: "map fst (f # fs) \<noteq> []" by simp
  show ?thesis
    using assms(2) unfolding extend_Id_history [OF t ne]
    by (simp add: throwRepeatError_def)
qed

text \<open>
  Claim C9 at \<^verbatim>\<open>element('div').id('main').class('x').id('y')\<close>.
\<close>

theorem repeated_id_witness:
  "Id \<in> set (map fst [(Element, ''div''), (Id, ''main''), (Class, ''x'')]) \<and>
   fst (extend Id \<lparr>type_f = Some ''element id class'', value_f = ''div#main.x'', message_f = None\<rparr> ''y'') =
     Inl (Error ''Element, id and pseudo-element should not occur more then one time inside the selector'')"
proof -
  have 1: "chain (Element, ''div'') [(Id, ''main''), (Class, ''x'')] =
      Inr \<lparr>type_f = Some ''element id class'', value_f = ''div#main.x'', message_f = None\<rparr>"
    by (simp add: call_defs facade_defs method_defs)
  have h: "Id \<in> set (map fst ((Element, ''div'') # [(Id, ''main''), (Class, ''x'')]))" by simp
  show ?thesis
    using repeated_id [OF 1 h, of "''y''"] by simp
qed

text \<open>
  Claim C5 fails as stated: in \<^verbatim>\<open>class('a').attr('b').class('c')\<close> the appended category
  class equals one already present, yet the call raises the order error, because the whole
  history is checked and it holds the later category attribute.
\<close>

theorem same_category_counterexample:
  "Class \<in> set (map fst [(Class, ''a''), (Attribute, ''b'')]) \<and>
   then_call (chain (Class, ''a'') [(Attribute, ''b'')]) BaseSelector_class ''c'' =
     Inl (Error ''Selector parts should be arranged in the following order: element, id, class, attribute, pseudo-class, pseudo-element'')"
  by (simp add: call_defs facade_defs method_defs)

text \<open>
  Claim C5, amended. Appending a category that is already in the history, when the history
  holds no category strictly later than it, never raises the order error; for class,
  attribute and pseudo-class the call succeeds and appends the rendered fragment. In
  particular \<^verbatim>\<open>id('main').class('container').class('editable').stringify()\<close> is
  \<^verbatim>\<open>#main.container.editable\<close>.
\<close>

theorem same_category_no_order_error:
  "(\<forall>f fs s c v.
      chain f fs = Inr s \<and> c \<in> set (map fst (f # fs)) \<and>
      \<not> (\<exists>d\<in>set (map fst (f # fs)). position c < position d) \<longrightarrow>
      fst (extend c s v) \<noteq>
        Inl (Error ''Selector parts should be arranged in the following order: element, id, class, attribute, pseudo-class, pseudo-element'') \<and>
      (repeatable c \<longrightarrow>
        (\<exists>s'. fst (extend c s v) = Inr s' \<and>
           fst (stringify s') = Inr (concat (map rendered (f # fs)) @ rendered (c, v))))) \<and>
   then_stringify
     (then_call (then_call (Inr (cssSelectorBuilder_id ''main''))
        BaseSelector_class ''container'') BaseSelector_class ''editable'') =
     Inr ''#main.container.editable''"
proof (intro conjI allI impI; (elim conjE)?)
  fix f :: "category \<times> string" and fs s c v
  assume ch: "chain f fs = Inr s"
    and mem: "c \<in> set (map fst (f # fs))"
    and late: "\<not> (\<exists>d\<in>set (map fst (f # fs)). position c < position d)"
  note t = chain_history(1) [OF ch]
  note val = chain_history(2) [OF ch]
  have ne: "map fst (f # fs) \<noteq> []" by simp
  have *: "fst (extend c s v) =
    (if repeatable c
     then Inr (constructor (Some (history (map fst (f # fs) @ [c])))
                (value_f s @ rendered (c, v)))
     else Inl (Error ''Element, id and pseudo-element should not occur more then one time inside the selector''))"
  proof (cases c)
    case Element
    have "fs = []"
    proof (cases fs)
      case (Cons g gs)
      with late Element have "position (fst g) = 0" by simp
      then have "fst g = Element" by (simp only: position_Element)
      with chain_no_element [OF ch] Cons show ?thesis by simp
    qed simp
    moreover from late Element have "position (fst f) = 0" by simp
    then have "fst f = Element" by (simp only: position_Element)
    ultimately have "map fst (f # fs) = [Element]" by simp
    then have "extend Element s v = throwRepeatError s"
      unfolding extend_Element_history [OF t ne] by (rule if_P)
    then show ?thesis
      unfolding Element by (simp add: throwRepeatError_def)
  next
    case Id
    with mem show ?thesis
      unfolding Id extend_Id_history [OF t ne] by (simp add: throwRepeatError_def)
  next
    case Class
    with late show ?thesis
      unfolding Class extend_Class_history [OF t ne] by simp
  next
    case Attribute
    with late show ?thesis
      unfolding Attribute extend_Attribute_history [OF t ne] by simp
  next
    case PseudoClass
    with late show ?thesis
      unfolding PseudoClass extend_PseudoClass_history [OF t ne] by simp
  next
    case PseudoElement
    with mem show ?thesis
      unfolding PseudoElement extend_PseudoElement_history [OF t ne]
      by (simp add: throwRepeatError_def)
  qed
  show "fst (extend c s v) \<noteq>
        Inl (Error ''Selector parts should be arranged in the following order: element, id, class, attribute, pseudo-class, pseudo-element'')"
    unfolding * by simp
  show "\<exists>s'. fst (extend c s v) = Inr s' \<and>
           fst (stringify s') = Inr (concat (map rendered (f # fs)) @ rendered (c, v))"
    if "repeatable c"
    using that val unfolding * by (simp add: stringify_def constructor_def)
next
  show "then_stringify
     (then_call (then_call (Inr (cssSelectorBuilder_id ''main''))
        BaseSelector_class ''container'') BaseSelector_class ''editable'') =
     Inr ''#main.container.editable''"
    by (simp add: call_defs facade_defs method_defs)
qed

text \<open>
  Claim C5, amended, at \<^verbatim>\<open>id('main').class('container')\<close> extended by a second class.
\<close>

theorem same_category_no_order_error_witness:
  "Class \<in> set (map fst [(Id, ''main''), (Class, ''container'')]) \<and>
   fst (extend Class \<lparr>type_f = Some ''id class'', value_f = ''#main.container'', message_f = None\<rparr> ''editable'') \<noteq>
     Inl (Error ''Selector parts should be arranged in the following order: element, id, class, attribute, pseudo-class, pseudo-element'') \<and>
   (\<exists>s'. fst (extend Class \<lparr>type_f = Some ''id class'', value_f = ''#main.container'', message_f = None\<rparr> ''editable'') = Inr s' \<and>
      fst (stringify s') = Inr ''#main.container.editable'')"
proof -
  have 1: "chain (Id, ''main'') [(Class, ''container'')] =
      Inr \<lparr>type_f = Some ''id class'', value_f = ''#main.container'', message_f = None\<rparr>"
    by (simp add: call_defs facade_defs method_defs)
  have 2: "Class \<in> set (map fst ((Id, ''main'') # [(Class, ''container'')]))" by simp
  have 3: "\<not> (\<exists>d\<in>set (map fst ((Id, ''main'') # [(Class, ''container'')])).
              position Class < position d)" by simp
  show ?thesis
    using same_category_no_order_error [THEN conjunct1, rule_format, OF conjI [OF 1 conjI [OF 2 3]],
        of "''editable''"]
    by simp
qed

text \<open>
  Claim C4. For all selectors \<open>left\<close> and \<open>right\<close> and every combinator string,
  \<^verbatim>\<open>combine(left, c, right).stringify()\<close> is the string of \<open>left\<close>, a space, the combinator as
  it is, a space, and the string of \<open>right\<close>; no combinator is refused. A combinator that is
  one space gives three spaces between the two. In particular \<^verbatim>\<open>div#main\<close> and
  \<^verbatim>\<open>table#data\<close> combined by \<^verbatim>\<open>+\<close> give \<^verbatim>\<open>div#main + table#data\<close>.
\<close>

theorem combine_stringify:
  "(\<forall>left c right a b.
      fst (stringify left) = Inr a \<and> fst (stringify right) = Inr b \<longrightarrow>
      fst (stringify (cssSelectorBuilder_combine left c right)) = Inr (a @ '' '' @ c @ '' '' @ b) \<and>
      (c = '' '' \<longrightarrow>
        fst (stringify (cssSelectorBuilder_combine left c right)) = Inr (a @ ''   '' @ b))) \<and>
   then_stringify
     (then_combine (chain (Element, ''div'') [(Id, ''main'')]) ''+''
        (chain (Element, ''table'') [(Id, ''data'')])) = Inr ''div#main + table#data'' \<and>
   then_stringify
     (then_combine (chain (Element, ''tr'') [(PseudoClass, ''nth-of-type(even)'')]) '' ''
        (chain (Element, ''td'') [(PseudoClass, ''nth-of-type(even)'')])) =
     Inr ''tr:nth-of-type(even)   td:nth-of-type(even)''"
  by (auto simp add: then_combine_def call_defs facade_defs method_defs)

text \<open>
  Claim C4 at the two selectors of the example.
\<close>

theorem combine_stringify_witness:
  "fst (stringify \<lparr>type_f = Some ''element id'', value_f = ''div#main'', message_f = None\<rparr>) =
     Inr ''div#main'' \<and>
   fst (stringify \<lparr>type_f = Some ''element id'', value_f = ''table#data'', message_f = None\<rparr>) =
     Inr ''table#data'' \<and>
   fst (stringify (cssSelectorBuilder_combine
      \<lparr>type_f = Some ''element id'', value_f = ''div#main'', message_f = None\<rparr> ''+''
      \<lparr>type_f = Some ''element id'', value_f = ''table#data'', message_f = None\<rparr>)) =
     Inr ''div#main + table#data''"
proof -
  have 1: "fst (stringify \<lparr>type_f = Some ''element id'', value_f = ''div#main'', message_f = None\<rparr>) =
     Inr ''div#main''" by (simp add: stringify_def)
  have 2: "fst (stringify \<lparr>type_f = Some ''element id'', value_f = ''table#data'', message_f = None\<rparr>) =
     Inr ''table#data''" by (simp add: stringify_def)
  from combine_stringify [THEN conjunct1, rule_format, OF conjI [OF 1 2], of "''+''"] 1 2
  show ?thesis by simp
qed

text \<open>
  Claim C6 fails as stated: \<^verbatim>\<open>combine\<close> builds its result with the type \<^verbatim>\<open>undefined\<close>, and a
  fragment method called on it stops with a \<^verbatim>\<open>TypeError\<close> at the first property it reads from
  \<^verbatim>\<open>this.type\<close>. Here \<^verbatim>\<open>combine(element('a'), '+', element('b'))\<close> is extended by \<^verbatim>\<open>element\<close>
  and by \<^verbatim>\<open>class\<close>.
\<close>

theorem combined_extension_counterexample:
  "fst (BaseSelector_element
     (cssSelectorBuilder_combine (cssSelectorBuilder_element ''a'') ''+''
        (cssSelectorBuilder_element ''b'')) ''x'') = Inl TypeError \<and>
   fst (BaseSelector_class
     (cssSelectorBuilder_combine (cssSelectorBuilder_element ''a'') ''+''
        (cssSelectorBuilder_element ''b'')) ''x'') = Inl TypeError"
  by (simp add: facade_defs method_defs)

text \<open>
  Claim C6, amended. On every selector produced by \<^verbatim>\<open>combine\<close>, each of the six fragment
  methods fails with a \<^verbatim>\<open>TypeError\<close>, which is neither of the two specified errors; no
  selector is returned and the combined selector is left as it was.
\<close>

theorem combined_extension_type_error:
  "extend c (cssSelectorBuilder_combine left comb right) v =
     (Inl TypeError, cssSelectorBuilder_combine left comb right)"
  by (rule extend_undefined) (simp add: facade_defs)

text \<open>
  Claim C7. \<^verbatim>\<open>stringify\<close> returns the accumulated string and leaves the selector as it was;
  any number of calls in a row return that same string each time, and in a store the call
  changes no object.
\<close>

theorem stringify_pure:
  "stringify this = (Inr (value_f this), this) \<and>
   stringify_times n this = (replicate n (Inr (value_f this)), this) \<and>
   store_stringify h r = (Inr (value_f (h ! r)), h)"
proof (intro conjI)
  show "stringify this = (Inr (value_f this), this)"
    by (simp add: stringify_def)
  show "stringify_times n this = (replicate n (Inr (value_f this)), this)"
    by (induction n) (simp_all add: stringify_def)
  show "store_stringify h r = (Inr (value_f (h ! r)), h)"
    by (simp add: store_stringify_def stringify_def)
qed

text \<open>
  Claim C8 fails as stated: the two throwing helpers assign \<^verbatim>\<open>this.message\<close> before they
  throw, so a failed extension call changes its receiver. After
  \<^verbatim>\<open>s = element('a'); s.element('b')\<close> the object \<open>s\<close> carries the message.
\<close>

theorem receiver_mutated_counterexample:
  "store_call BaseSelector_element [cssSelectorBuilder_element ''a''] 0 ''b'' =
     (Inl (Error ''Element, id and pseudo-element should not occur more then one time inside the selector''),
      [\<lparr>type_f = Some ''element'', value_f = ''a'',
        message_f = Some ''Element, id and pseudo-element should not occur more then one time inside the selector''\<rparr>]) \<and>
   snd (store_call BaseSelector_element [cssSelectorBuilder_element ''a''] 0 ''b'') \<noteq>
     [cssSelectorBuilder_element ''a'']"
  by (simp add: store_call_def facade_defs method_defs)

text \<open>
  Claim C8, amended. An extension call that returns allocates a new selector and leaves
  every existing object, the receiver included, unchanged; so does \<^verbatim>\<open>combine\<close>. An extension
  call that fails with one of the two errors changes one thing, the field \<^verbatim>\<open>message\<close> of its
  receiver; a call that fails with a \<^verbatim>\<open>TypeError\<close> changes nothing. No method reads
  \<^verbatim>\<open>message\<close>, so whatever the call did, every later extension of the receiver gives the
  result it would have given before: a partial chain can be the base of several extensions.
\<close>

theorem store_frame:
  "(\<forall>h r c v res h'.
      r < length h \<and> store_call (extend c) h r v = (res, h') \<longrightarrow>
      (case res of
         Inr r' \<Rightarrow> r' = length h \<and> (\<exists>obj. h' = h @ [obj])
       | Inl (Error m) \<Rightarrow> h' = h[r := (h ! r)\<lparr>message_f := Some m\<rparr>]
       | Inl TypeError \<Rightarrow> h' = h) \<and>
      (\<forall>c2 v2. fst (extend c2 (h' ! r) v2) = fst (extend c2 (h ! r) v2))) \<and>
   (\<forall>h r1 comb r2. \<exists>obj. store_combine h r1 comb r2 = (length h, h @ [obj]))"
proof (intro conjI allI impI; (elim conjE)?)
  fix h :: store and r c v res h'
  assume r: "r < length h" and call: "store_call (extend c) h r v = (res, h')"
  obtain out this' where e: "extend c (h ! r) v = (out, this')"
    by (cases "extend c (h ! r) v")
  note rec = extend_receiver [OF e]
  show "case res of
         Inr r' \<Rightarrow> r' = length h \<and> (\<exists>obj. h' = h @ [obj])
       | Inl (Error m) \<Rightarrow> h' = h[r := (h ! r)\<lparr>message_f := Some m\<rparr>]
       | Inl TypeError \<Rightarrow> h' = h"
    using call e rec
    by (auto simp: store_call_def split: sum.splits error.splits)
  show "fst (extend c2 (h' ! r) v2) = fst (extend c2 (h ! r) v2)" for c2 v2
    using call e rec r
    by (auto simp: store_call_def nth_append extend_message split: sum.splits error.splits)
next
  show "\<exists>obj. store_combine h r1 comb r2 = (length h, h @ [obj])" for h r1 comb r2
    by (simp add: store_combine_def)
qed

text \<open>
  Claim C8, amended, at the store that holds \<^verbatim>\<open>element('a')\<close>: the call \<^verbatim>\<open>id('b')\<close> on it
  returns the fresh reference and appends one object; the call \<^verbatim>\<open>element('b')\<close> on it fails
  and sets the message of the receiver; \<^verbatim>\<open>class('c')\<close> on the receiver gives the same result
  after the failed call as before.
\<close>

theorem store_frame_witness:
  "(0::nat) < length [cssSelectorBuilder_element ''a''] \<and>
   fst (store_call (extend Id) [cssSelectorBuilder_element ''a''] 0 ''b'') = Inr 1 \<and>
   (\<exists>obj. snd (store_call (extend Id) [cssSelectorBuilder_element ''a''] 0 ''b'') =
      [cssSelectorBuilder_element ''a''] @ [obj]) \<and>
   snd (store_call (extend Element) [cssSelectorBuilder_element ''a''] 0 ''b'') =
     [(cssSelectorBuilder_element ''a'')
        \<lparr>message_f := Some ''Element, id and pseudo-element should not occur more then one time inside the selector''\<rparr>] \<and>
   fst (extend Class (snd (store_call (extend Element) [cssSelectorBuilder_element ''a''] 0 ''b'') ! 0) ''c'') =
     fst (extend Class (cssSelectorBuilder_element ''a'') ''c'')"
proof -
  let ?h = "[cssSelectorBuilder_element ''a'']"
  have len: "(0::nat) < length ?h" by simp
  obtain res1 h1 where c1: "store_call (extend Id) ?h 0 ''b'' = (res1, h1)"
    by (cases "store_call (extend Id) ?h 0 ''b''")
  obtain res2 h2 where c2: "store_call (extend Element) ?h 0 ''b'' = (res2, h2)"
    by (cases "store_call (extend Element) ?h 0 ''b''")
  have r1: "res1 = Inr 1"
    using c1 by (auto simp add: store_call_def facade_defs method_defs)
  have r2: "res2 = Inl (Error ''Element, id and pseudo-element should not occur more then one time inside the selector'')"
    using c2 by (auto simp add: store_call_def facade_defs method_defs)
  note f1 = store_frame [THEN conjunct1, rule_format, OF conjI [OF len c1]]
  note f2 = store_frame [THEN conjunct1, rule_format, OF conjI [OF len c2]]
  from f1 r1 have a: "\<exists>obj. h1 = ?h @ [obj]" by simp
  from f2 r2 have b: "h2 = ?h[0 := (?h ! 0)\<lparr>message_f := Some ''Element, id and pseudo-element should not occur more then one time inside the selector''\<rparr>]"
    by simp
  from f2 have c: "fst (extend Class (h2 ! 0) ''c'') = fst (extend Class (?h ! 0) ''c'')"
    by blast
  from len c1 c2 r1 a b c show ?thesis by simp
qed

text \<open>
  Claim C10. When an extension call fails with the repeated-category or the order error,
  the type and the value of the receiver are what they were, and \<^verbatim>\<open>stringify\<close> on the
  receiver returns the same string as before the call.
\<close>

theorem failed_call_keeps_fields:
  assumes "fst (extend c this v) = Inl (Error m)"
  shows "type_f (snd (extend c this v)) = type_f this \<and>
         value_f (snd (extend c this v)) = value_f this \<and>
         fst (stringify (snd (extend c this v))) = fst (stringify this)"
proof -
  obtain res this' where e: "extend c this v = (res, this')"
    by (cases "extend c this v")
  with assms extend_receiver [OF e] show ?thesis
    by (simp add: stringify_def)
qed

text \<open>
  Claim C10 at the failed call \<^verbatim>\<open>element('a').element('b')\<close>.
\<close>

theorem failed_call_keeps_fields_witness:
  "fst (extend Element (cssSelectorBuilder_element ''a'') ''b'') =
     Inl (Error ''Element, id and pseudo-element should not occur more then one time inside the selector'') \<and>
   type_f (snd (extend Element (cssSelectorBuilder_element ''a'') ''b'')) = Some ''element'' \<and>
   value_f (snd (extend Element (cssSelectorBuilder_element ''a'') ''b'')) = ''a'' \<and>
   fst (stringify (snd (extend Element (cssSelectorBuilder_element ''a'') ''b''))) = Inr ''a''"
proof -
  have 1: "fst (extend Element (cssSelectorBuilder_element ''a'') ''b'') =
     Inl (Error ''Element, id and pseudo-element should not occur more then one time inside the selector'')"
    by (simp add: facade_defs method_defs)
  from failed_call_keeps_fields [OF 1] 1 show ?thesis
    by (simp add: facade_defs stringify_def)
qed

end
